theory Spec2Isabelle
  imports Main "HOL-Library.Sublist" "HOL-Library.Finite_Map"
begin

section \<open>The Go string functions used by errkit\<close>

text \<open>
  A Go string is a sequence of bytes, here a \<^typ>\<open>string\<close> (a list of 8-bit
  characters). The functions below are the ones of package \<^verbatim>\<open>strings\<close> that
  \<^verbatim>\<open>errkit/errors.go\<close> calls.
\<close>

text \<open>\<^verbatim>\<open>strings.Contains(s, substr)\<close>: some suffix of \<open>s\<close> starts with \<open>substr\<close>.\<close>

fun Contains :: "string \<Rightarrow> string \<Rightarrow> bool" where
  "Contains [] sub = (sub = [])"
| "Contains (c # cs) sub = (prefix sub (c # cs) \<or> Contains cs sub)"

text \<open>
  \<^verbatim>\<open>strings.Split(s, sep)\<close> for a non-empty separator: the pieces between the
  leftmost, non-overlapping occurrences of \<open>sep\<close>. The second argument of
  \<open>splitFrom\<close> holds the bytes of the piece under construction, last byte first.
  errors.go only splits at its non-empty delimiter constants; for an empty separator
  (where Go cuts after every UTF-8 sequence) \<open>Split\<close> below returns the whole string
  as one piece, and no theorem of this file uses that case.
\<close>

function splitFrom :: "string \<Rightarrow> string \<Rightarrow> string \<Rightarrow> string list" where
  "splitFrom sep acc [] = [rev acc]"
| "splitFrom sep acc (c # cs) =
     (if sep \<noteq> [] \<and> prefix sep (c # cs)
      then rev acc # splitFrom sep [] (drop (length sep) (c # cs))
      else splitFrom sep (c # acc) cs)"
  by pat_completeness auto
termination
  by (relation "measure (\<lambda>(sep, acc, s). length s)") (auto simp: Suc_le_eq)

definition Split :: "string \<Rightarrow> string \<Rightarrow> string list" where
  "Split s sep = splitFrom sep [] s"

text \<open>
  \<^verbatim>\<open>strings.Replace(s, old, "", -1)\<close> and \<^verbatim>\<open>strings.ReplaceAll(s, old, "")\<close>:
  every leftmost, non-overlapping occurrence of \<open>old\<close> is removed. With an empty
  \<open>old\<close> Go inserts the (empty) replacement at every rune boundary, which returns
  \<open>s\<close>. errors.go never passes another replacement than the empty string.
\<close>

definition ReplaceAll_empty :: "string \<Rightarrow> string \<Rightarrow> string" where
  "ReplaceAll_empty s old = (if old = [] then s else concat (Split s old))"

text \<open>\<^verbatim>\<open>strings.TrimSuffix(s, suffix)\<close>.\<close>

definition TrimSuffix :: "string \<Rightarrow> string \<Rightarrow> string" where
  "TrimSuffix s suf = (if suffix suf s then take (length s - length suf) s else s)"

text \<open>
  \<^verbatim>\<open>strings.TrimSpace(s)\<close> removes leading and trailing Unicode white space. The
  runes with \<^verbatim>\<open>unicode.IsSpace\<close> are listed by their UTF-8 encodings: the six
  ASCII ones, U+0085, U+00A0, U+1680, U+2000 to U+200A, U+2028, U+2029, U+202F, U+205F
  and U+3000. UTF-8 is prefix-free and every encoding starts with a non-continuation
  byte, so decoding the first (last) rune and testing it is the same as testing whether
  one of these byte sequences is a prefix (suffix).
\<close>

definition spaceRunes :: "string list" where
  "spaceRunes =
     [[CHR 0x09], [CHR 0x0A], [CHR 0x0B], [CHR 0x0C], [CHR 0x0D], [CHR 0x20],
      [CHR 0xC2, CHR 0x85], [CHR 0xC2, CHR 0xA0],
      [CHR 0xE1, CHR 0x9A, CHR 0x80],
      [CHR 0xE2, CHR 0x80, CHR 0x80], [CHR 0xE2, CHR 0x80, CHR 0x81],
      [CHR 0xE2, CHR 0x80, CHR 0x82], [CHR 0xE2, CHR 0x80, CHR 0x83],
      [CHR 0xE2, CHR 0x80, CHR 0x84], [CHR 0xE2, CHR 0x80, CHR 0x85],
      [CHR 0xE2, CHR 0x80, CHR 0x86], [CHR 0xE2, CHR 0x80, CHR 0x87],
      [CHR 0xE2, CHR 0x80, CHR 0x88], [CHR 0xE2, CHR 0x80, CHR 0x89],
      [CHR 0xE2, CHR 0x80, CHR 0x8A],
      [CHR 0xE2, CHR 0x80, CHR 0xA8], [CHR 0xE2, CHR 0x80, CHR 0xA9],
      [CHR 0xE2, CHR 0x80, CHR 0xAF], [CHR 0xE2, CHR 0x81, CHR 0x9F],
      [CHR 0xE3, CHR 0x80, CHR 0x80]]"

definition leadingSpace :: "string \<Rightarrow> nat" where
  "leadingSpace s = (case find (\<lambda>r. prefix r s) spaceRunes of None \<Rightarrow> 0 | Some r \<Rightarrow> length r)"

definition trailingSpace :: "string \<Rightarrow> nat" where
  "trailingSpace s = (case find (\<lambda>r. suffix r s) spaceRunes of None \<Rightarrow> 0 | Some r \<Rightarrow> length r)"

lemma leadingSpace_le: "leadingSpace s \<le> length s"
  by (auto simp: leadingSpace_def prefix_length_le split: option.splits dest!: find_Some_iff[THEN iffD1])

lemma trailingSpace_le: "trailingSpace s \<le> length s"
  by (auto simp: trailingSpace_def suffix_length_le split: option.splits dest!: find_Some_iff[THEN iffD1])

function TrimLeftSpace :: "string \<Rightarrow> string" where
  "TrimLeftSpace s = (if leadingSpace s = 0 then s else TrimLeftSpace (drop (leadingSpace s) s))"
  by pat_completeness auto
termination
proof (relation "measure length", goal_cases)
  case 1
  show ?case by simp
next
  case (2 s)
  with leadingSpace_le [of s] show ?case by (cases s) auto
qed

function TrimRightSpace :: "string \<Rightarrow> string" where
  "TrimRightSpace s =
     (if trailingSpace s = 0 then s else TrimRightSpace (take (length s - trailingSpace s) s))"
  by pat_completeness auto
termination
proof (relation "measure length", goal_cases)
  case 1
  show ?case by simp
next
  case (2 s)
  with trailingSpace_le [of s] show ?case by (cases s) auto
qed

declare TrimLeftSpace.simps [simp del] TrimRightSpace.simps [simp del]

definition TrimSpace :: "string \<Rightarrow> string" where
  "TrimSpace s = TrimRightSpace (TrimLeftSpace s)"


subsection \<open>Lengths of the pieces\<close>

text \<open>
  The decomposition of a message recurses into the pieces of a split. The weight of a
  list of pieces (twice their bytes, plus two for each piece) is what that recursion
  decreases.
\<close>

definition partsWeight :: "string list \<Rightarrow> nat" where
  "partsWeight ps = sum_list (map (\<lambda>p. 2 * length p + 2) ps)"

lemma partsWeight_simps [simp]:
  "partsWeight [] = 0"
  "partsWeight (p # ps) = 2 * length p + 2 + partsWeight ps"
  "partsWeight (ps @ qs) = partsWeight ps + partsWeight qs"
  "partsWeight (rev ps) = partsWeight ps"
  by (simp_all add: partsWeight_def rev_map [symmetric] sum_list_rev)

lemma splitFrom_weight:
  "partsWeight (splitFrom sep acc s) \<le> 2 * (length acc + length s) + 2"
proof (induction sep acc s rule: splitFrom.induct)
  case (1 sep acc)
  show ?case by simp
next
  case (2 sep acc c cs)
  show ?case
  proof (cases "sep \<noteq> [] \<and> prefix sep (c # cs)")
    case True
    then have "Suc (length cs) - length sep \<le> length cs"
      by (cases sep) auto
    with 2(1) True show ?thesis by simp
  next
    case False
    with 2(2) show ?thesis by auto
  qed
qed

lemma splitFrom_weight_Contains:
  "Contains s sep \<Longrightarrow> 2 \<le> length sep \<Longrightarrow>
   partsWeight (splitFrom sep acc s) \<le> 2 * (length acc + length s)"
proof (induction sep acc s rule: splitFrom.induct)
  case (1 sep acc)
  then show ?case by simp
next
  case (2 sep acc c cs)
  from 2(4) have ne: "sep \<noteq> []" by auto
  show ?case
  proof (cases "prefix sep (c # cs)")
    case True
    then have "length sep \<le> Suc (length cs)"
      by (auto dest: prefix_length_le)
    moreover have "partsWeight (splitFrom sep [] (drop (length sep) (c # cs)))
        \<le> 2 * (length (drop (length sep) (c # cs))) + 2"
      using splitFrom_weight [of sep "[]" "drop (length sep) (c # cs)"] by simp
    ultimately have "partsWeight (splitFrom sep [] (drop (length sep) (c # cs)))
        \<le> 2 * length cs"
      using 2(4) by simp
    with True ne show ?thesis by simp
  next
    case False
    with 2(3) have "Contains cs sep" by simp
    with 2(2) 2(4) False have "partsWeight (splitFrom sep (c # acc) cs)
        \<le> 2 * (length (c # acc) + length cs)"
      by blast
    with False show ?thesis by simp
  qed
qed

lemma splitFrom_concat_length:
  "sep \<noteq> [] \<Longrightarrow> length (concat (splitFrom sep acc s)) \<le> length acc + length s"
proof (induction sep acc s rule: splitFrom.induct)
  case (1 sep acc)
  show ?case by simp
next
  case (2 sep acc c cs)
  show ?case
  proof (cases "prefix sep (c # cs)")
    case True
    with 2(1) 2(3) show ?thesis by simp
  next
    case False
    with 2(2) 2(3) show ?thesis by simp
  qed
qed

lemma splitFrom_concat_length_Contains:
  "Contains s sep \<Longrightarrow> sep \<noteq> [] \<Longrightarrow>
   length (concat (splitFrom sep acc s)) + length sep \<le> length acc + length s"
proof (induction sep acc s rule: splitFrom.induct)
  case (1 sep acc)
  then show ?case by simp
next
  case (2 sep acc c cs)
  show ?case
  proof (cases "prefix sep (c # cs)")
    case True
    then have "length sep \<le> Suc (length cs)"
      by (auto dest: prefix_length_le)
    moreover have "length (concat (splitFrom sep [] (drop (length sep) (c # cs))))
        \<le> length (drop (length sep) (c # cs))"
      using splitFrom_concat_length [of sep "[]" "drop (length sep) (c # cs)"] 2(4) by simp
    ultimately show ?thesis using True 2(4) by simp
  next
    case False
    with 2(3) have "Contains cs sep" by simp
    with 2(2) 2(4) False have "length (concat (splitFrom sep (c # acc) cs)) + length sep
        \<le> length (c # acc) + length cs"
      by blast
    with False show ?thesis by simp
  qed
qed

lemma ReplaceAll_empty_length: "length (ReplaceAll_empty s old) \<le> length s"
  using splitFrom_concat_length [of old "[]" s] by (simp add: ReplaceAll_empty_def Split_def)

lemma TrimLeftSpace_length: "length (TrimLeftSpace s) \<le> length s"
proof (induction s rule: TrimLeftSpace.induct)
  case (1 s)
  show ?case
  proof (cases "leadingSpace s = 0")
    case True
    then show ?thesis by (subst TrimLeftSpace.simps) simp
  next
    case False
    with 1 have "length (TrimLeftSpace (drop (leadingSpace s) s)) \<le> length s" by simp
    with False show ?thesis by (subst TrimLeftSpace.simps) simp
  qed
qed

lemma TrimRightSpace_length: "length (TrimRightSpace s) \<le> length s"
proof (induction s rule: TrimRightSpace.induct)
  case (1 s)
  show ?case
  proof (cases "trailingSpace s = 0")
    case True
    then show ?thesis by (subst TrimRightSpace.simps) simp
  next
    case False
    with 1 have "length (TrimRightSpace (take (length s - trailingSpace s) s)) \<le> length s" by simp
    with False show ?thesis by (subst TrimRightSpace.simps) simp
  qed
qed

lemma TrimSpace_length: "length (TrimSpace s) \<le> length s"
  using TrimRightSpace_length [of "TrimLeftSpace s"] TrimLeftSpace_length [of s]
  by (simp add: TrimSpace_def)

lemma partsWeight_TrimSpace: "partsWeight (map TrimSpace ps) \<le> partsWeight ps"
proof (induction ps)
  case Nil
  show ?case by simp
next
  case (Cons p ps)
  with TrimSpace_length [of p] show ?case by simp
qed


section \<open>The data model of errkit\<close>

text \<open>
  Modelled from the spec: the interface \<^verbatim>\<open>ErrKind\<close> is declared in another file of
  the package. The spec describes a classification tag as a comparable value with a string
  name, which may be absent; errors.go only compares a kind with \<^verbatim>\<open>nil\<close> and calls
  its \<^verbatim>\<open>String()\<close>. A kind is the name that \<^verbatim>\<open>String()\<close> returns, and a field
  of type \<^verbatim>\<open>ErrKind\<close> is an option (\<open>None\<close> is the nil interface).
\<close>

type_synonym ErrKind = string

text \<open>
  \<^verbatim>\<open>slog.Attr\<close> is a key with a value. errors.go never looks into the value; three of
  the kinds of \<^verbatim>\<open>slog.Value\<close> are enough to write attributes down.
\<close>

datatype slogValue = StringValue string | Int64Value int | BoolValue bool

record Attr =
  Key :: string
  Val :: slogValue

text \<open>
  A non-nil Go \<^verbatim>\<open>error\<close>, by the first case of the type switch of
  \<^verbatim>\<open>parseError\<close> that it takes:
  \<^item> \<open>XErr a x\<close>: a \<^verbatim>\<open>*ErrorX\<close>, the address \<open>a\<close> with the struct \<open>x\<close> that it
    points to;
  \<^item> \<open>Joined msg children\<close>: a \<^verbatim>\<open>JoinedError\<close>, with \<^verbatim>\<open>Unwrap() []error\<close>;
  \<^item> \<open>Wrapped msg child\<close>: a \<^verbatim>\<open>WrappedError\<close>, with \<^verbatim>\<open>Unwrap() error\<close>;
  \<^item> \<open>Caused msg cause\<close>: a \<^verbatim>\<open>CauseError\<close>, with \<^verbatim>\<open>Cause() error\<close>;
  \<^item> \<open>Plain msg\<close>: any other error, such as the result of \<^verbatim>\<open>errors.New(msg)\<close>.

  \<open>msg\<close> is what the value's own \<^verbatim>\<open>Error()\<close> returns. A value of type
  \<^verbatim>\<open>error\<close> that may be nil is an \<open>error option\<close>: the child of a wrapped error, the
  cause of a cause error and the members of a joined error's list are what a foreign
  implementation returns, and may be nil.

  \<^verbatim>\<open>ErrorX\<close> is the struct of errors.go with its four fields. The two Go maps are a
  finite map and a set; a nil map reads like an empty one and is not told apart from it.

  The store is held with the values: a pointer to an \<^verbatim>\<open>ErrorX\<close> is its address
  together with the struct that is at this address now, never a nil pointer. Two values
  that hold the same address hold the same struct. A method that changes the struct of
  its receiver changes it in every value that holds the receiver's address (\<open>changeAt\<close>
  below), so that a leaf which is a \<^verbatim>\<open>*ErrorX\<close> reads differently afterwards. The
  message of an error of another type is taken as fixed.
\<close>

text \<open>
  Modelled from the spec: the interfaces \<^verbatim>\<open>JoinedError\<close> and \<^verbatim>\<open>CauseError\<close>
  are declared in another file of the package. The spec describes them as the capability
  to expose an ordered list of children and the capability to expose a root cause next to
  the full message; errors.go ranges over \<^verbatim>\<open>v.Unwrap()\<close> for the first and calls
  \<^verbatim>\<open>v.Cause()\<close> for the second. \<^verbatim>\<open>WrappedError\<close> is declared in errors.go.
\<close>

datatype error =
    Plain string
  | Joined string "error option list"
  | Wrapped string "error option"
  | Caused string "error option"
  | XErr nat ErrorX
and ErrorX =
    ErrorX (kind: "ErrKind option") (attrs: "(string, Attr) fmap") (errs: "error list")
      (uniqErrs: "string set")

text \<open>
  The package variables \<^verbatim>\<open>MaxErrorDepth\<close> and \<^verbatim>\<open>ErrorSeperator\<close> are read from
  the environment when the package is loaded (defaults 3 and \<^verbatim>\<open>"; "\<close>); a Go
  \<^verbatim>\<open>int\<close> that is compared with lengths only is an \<^typ>\<open>int\<close>. Two functions
  that errors.go calls are not part of it and are parameters as well:
  \<^verbatim>\<open>CombineErrKinds\<close>, and \<open>GroupString\<close> for
  \<^verbatim>\<open>slog.GroupValue(maps.Values(attrs)...).String()\<close>, the rendering of an attribute
  map. No evaluation below renders a container with attributes.
\<close>

record env =
  MaxErrorDepth :: int
  ErrorSeperator :: string
  CombineErrKinds :: "ErrKind option \<Rightarrow> ErrKind option \<Rightarrow> ErrKind option"
  GroupString :: "(string, Attr) fmap \<Rightarrow> string"

definition defaultEnv ::
  "(ErrKind option \<Rightarrow> ErrKind option \<Rightarrow> ErrKind option) \<Rightarrow> ((string, Attr) fmap \<Rightarrow> string) \<Rightarrow> env" where
  "defaultEnv combine render =
     \<lparr>MaxErrorDepth = 3, ErrorSeperator = ''; '', CombineErrKinds = combine, GroupString = render\<rparr>"

definition DelimArrow :: string where
  "DelimArrow = ''<-''"

text \<open>
  The Go source writes the first byte of this constant as the escape of code point 003c,
  which is \<^verbatim>\<open><\<close>: the string is the same two bytes as \<open>DelimArrow\<close>.
\<close>

definition DelimArrowSerialized :: string where
  "DelimArrowSerialized = ''<-''"

definition DelimSemiColon :: string where
  "DelimSemiColon = ''; ''"

definition DelimMultiLine :: string where
  "DelimMultiLine = [CHR 0x0A, CHR '' '', CHR ''-'', CHR '' '', CHR '' '']"

definition MultiLineErrPrefix :: string where
  "MultiLineErrPrefix = ''the following errors occurred:''"

section \<open>The methods of ErrorX\<close>

text \<open>
  \<open>Error env e\<close> is \<^verbatim>\<open>e.Error()\<close> for any error; for a \<^verbatim>\<open>*ErrorX\<close> it is the
  method \<^verbatim>\<open>(e *ErrorX) Error()\<close>, which writes the kind, the attributes and every
  leaf followed by the separator, and trims one separator from the end.
\<close>

fun Error :: "env \<Rightarrow> error \<Rightarrow> string"
  and ErrorX_Error :: "env \<Rightarrow> ErrorX \<Rightarrow> string" where
  "Error env (Plain msg) = msg"
| "Error env (Joined msg children) = msg"
| "Error env (Wrapped msg child) = msg"
| "Error env (Caused msg cause) = msg"
| "Error env (XErr a x) = ErrorX_Error env x"
| "ErrorX_Error env (ErrorX k as es u) =
     TrimSuffix
       ((case k of
           None \<Rightarrow> []
         | Some name \<Rightarrow> if name \<noteq> [] then ''errKind='' @ name @ '' '' else [])
        @ (if 0 < fcard (fmdom as) then GroupString env as @ '' '' else [])
        @ concat (map (\<lambda>e. Error env e @ ErrorSeperator env) es))
       (ErrorSeperator env)"

text \<open>\<^verbatim>\<open>(e *ErrorX) append(errs ...error)\<close>, for errors that are not nil.\<close>

fun ErrorX_append :: "env \<Rightarrow> ErrorX \<Rightarrow> error list \<Rightarrow> ErrorX" where
  "ErrorX_append env e [] = e"
| "ErrorX_append env e (err # rest) =
     (if Error env err \<in> uniqErrs e then ErrorX_append env e rest
      else ErrorX_append env
             (ErrorX (kind e) (attrs e) (errs e @ [err]) (insert (Error env err) (uniqErrs e)))
             rest)"

text \<open>The zero value \<^verbatim>\<open>&ErrorX{}\<close>.\<close>

definition emptyErrorX :: ErrorX where
  "emptyErrorX = ErrorX None fmempty [] {}"

definition Errors :: "ErrorX \<Rightarrow> error list" where
  "Errors e = errs e"

text \<open>\<^verbatim>\<open>Cause()\<close>: the first leaf, or nil.\<close>

definition Cause :: "ErrorX \<Rightarrow> error option" where
  "Cause e = (case errs e of [] \<Rightarrow> None | first # rest \<Rightarrow> Some first)"


text \<open>
  A method with a pointer receiver changes the struct at the receiver's address, and with
  it every value that holds this address: \<open>changeAt p f v\<close> is the value \<open>v\<close> after the
  struct at address \<open>p\<close> was changed by \<open>f\<close>. \<open>holds p v\<close> says that the address occurs in
  \<open>v\<close>.
\<close>

fun changeAt :: "nat \<Rightarrow> (ErrorX \<Rightarrow> ErrorX) \<Rightarrow> error \<Rightarrow> error"
  and changeAtX :: "nat \<Rightarrow> (ErrorX \<Rightarrow> ErrorX) \<Rightarrow> ErrorX \<Rightarrow> ErrorX" where
  "changeAt p f (Plain msg) = Plain msg"
| "changeAt p f (Joined msg children) = Joined msg (map (map_option (changeAt p f)) children)"
| "changeAt p f (Wrapped msg child) = Wrapped msg (map_option (changeAt p f) child)"
| "changeAt p f (Caused msg cause) = Caused msg (map_option (changeAt p f) cause)"
| "changeAt p f (XErr a x) =
     (if a = p then XErr a (f (changeAtX p f x)) else XErr a (changeAtX p f x))"
| "changeAtX p f (ErrorX k as es u) = ErrorX k as (map (changeAt p f) es) u"


text \<open>
  \<^verbatim>\<open>Msgf\<close> has a pointer receiver and returns nothing. On a nil receiver, \<open>None\<close>
  here, it returns at once. Otherwise it appends the error that \<^verbatim>\<open>fmt.Errorf\<close>
  returns, which is never nil and is the argument \<open>formatted\<close>, to the struct of the
  receiver, in place. \<open>held\<close> is any error value that the program holds: the receiver
  itself, which is \<open>XErr p x\<close>, or a value with the receiver among its leaves. The result
  is what this value is after the call.
\<close>

definition Msgf :: "env \<Rightarrow> nat option \<Rightarrow> error \<Rightarrow> error \<Rightarrow> error" where
  "Msgf env e formatted held =
     (case e of
        None \<Rightarrow> held
      | Some p \<Rightarrow> changeAt p (\<lambda>x. ErrorX_append env x [formatted]) held)"


text \<open>\<^verbatim>\<open>SetAttr\<close>: each attribute goes in when its key is new and there is room.\<close>

fun SetAttr :: "env \<Rightarrow> ErrorX \<Rightarrow> Attr list \<Rightarrow> ErrorX" where
  "SetAttr env e [] = e"
| "SetAttr env e (attr # rest) =
     (if Key attr |\<notin>| fmdom (attrs e) \<and> int (fcard (fmdom (attrs e))) < MaxErrorDepth env
      then SetAttr env (ErrorX (kind e) (fmupd (Key attr) attr (attrs e)) (errs e) (uniqErrs e)) rest
      else SetAttr env e rest)"

text \<open>
  \<^verbatim>\<open>Attrs()\<close> returns \<^verbatim>\<open>maps.Values(e.attrs)\<close>, the values of a Go map "in an
  indeterminate order", which can differ from one call to the next. \<open>Attrs e listed\<close> says
  that \<open>listed\<close> is a possible result of the call: every stored attribute once, in any
  order.
\<close>

definition Attrs :: "ErrorX \<Rightarrow> Attr list \<Rightarrow> bool" where
  "Attrs e listed =
     (distinct (map Key listed) \<and>
      list_all (\<lambda>a. fmlookup (attrs e) (Key a) = Some a) listed \<and>
      length listed = fcard (fmdom (attrs e)))"

section \<open>The decomposition: parseError and FromError\<close>

text \<open>
  Calling \<^verbatim>\<open>Error()\<close> on a nil error is a nil dereference, which panics; a panic is
  the left summand of the result.
\<close>

datatype panic = NilDereference

text \<open>
  The loop of the \<^verbatim>\<open>JoinedError\<close> case: \<^verbatim>\<open>to.append(e)\<close> for every member of the
  list. \<^verbatim>\<open>append\<close> calls \<^verbatim>\<open>e.Error()\<close> first, so a nil member panics.
\<close>

fun appendEach :: "env \<Rightarrow> ErrorX \<Rightarrow> error option list \<Rightarrow> panic + ErrorX" where
  "appendEach env to [] = Inr to"
| "appendEach env to (None # rest) = Inl NilDereference"
| "appendEach env to (Some e # rest) = appendEach env (ErrorX_append env to [e]) rest"

text \<open>The depth guard: \<^verbatim>\<open>len(to.errs) >= MaxErrorDepth\<close>.\<close>

definition depthReached :: "env \<Rightarrow> ErrorX \<Rightarrow> bool" where
  "depthReached env to = (MaxErrorDepth env \<le> int (length (errs to)))"

fun errWeight :: "error \<Rightarrow> nat" where
  "errWeight (Plain msg) = 2 * length msg + 1"
| "errWeight (Joined msg children) = 2 * length msg + 2"
| "errWeight (Wrapped msg None) = 2 * length msg + 2"
| "errWeight (Wrapped msg (Some child)) = 2 * length msg + 2 + errWeight child"
| "errWeight (Caused msg cause) = 2 * length msg + 2"
| "errWeight (XErr a x) = 0"

lemma weight_arrow_parts:
  "Contains s DelimArrow \<Longrightarrow> partsWeight (map TrimSpace (rev (Split s DelimArrow))) \<le> 2 * length s"
  using splitFrom_weight_Contains [of s DelimArrow "[]"]
    partsWeight_TrimSpace [of "rev (Split s DelimArrow)"]
  by (simp add: Split_def DelimArrow_def)

lemma weight_serialized_parts:
  "Contains s DelimArrowSerialized \<Longrightarrow>
   partsWeight (map TrimSpace (rev (Split s DelimArrowSerialized))) \<le> 2 * length s"
  using weight_arrow_parts [of s] by (simp add: DelimArrow_def DelimArrowSerialized_def)

lemma weight_semicolon_parts:
  "Contains s DelimSemiColon \<Longrightarrow> partsWeight (map TrimSpace (Split s DelimSemiColon)) \<le> 2 * length s"
  using splitFrom_weight_Contains [of s DelimSemiColon "[]"]
    partsWeight_TrimSpace [of "Split s DelimSemiColon"]
  by (simp add: Split_def DelimSemiColon_def)

lemma weight_multiline_parts:
  assumes "Contains s MultiLineErrPrefix"
  shows "partsWeight (map TrimSpace (Split (ReplaceAll_empty s MultiLineErrPrefix) DelimMultiLine))
         \<le> 2 * length s"
proof -
  let ?msg = "ReplaceAll_empty s MultiLineErrPrefix"
  have "length ?msg + length MultiLineErrPrefix \<le> length s"
    using splitFrom_concat_length_Contains [OF assms, of "[]"]
    by (simp add: ReplaceAll_empty_def Split_def MultiLineErrPrefix_def)
  then have "2 * length ?msg + 2 \<le> 2 * length s"
    by (simp add: MultiLineErrPrefix_def)
  moreover have "partsWeight (Split ?msg DelimMultiLine) \<le> 2 * length ?msg + 2"
    using splitFrom_weight [of DelimMultiLine "[]" ?msg] by (simp add: Split_def)
  moreover note partsWeight_TrimSpace [of "Split ?msg DelimMultiLine"]
  ultimately show ?thesis by linarith
qed

text \<open>
  \<^verbatim>\<open>parseError(to, err)\<close>. The container \<open>to\<close> is passed in and the updated one is
  returned; every caller in errors.go passes a container that is not nil. After the nil
  check and the depth guard, the type switch: one equation for each case. The loops over
  the pieces of a split message are \<open>parseParts\<close>, which calls \<^verbatim>\<open>parseError\<close> on
  \<^verbatim>\<open>errors.New(part)\<close> for each piece in turn.
\<close>

function parseError :: "env \<Rightarrow> ErrorX \<Rightarrow> error option \<Rightarrow> panic + ErrorX"
  and parseParts :: "env \<Rightarrow> ErrorX \<Rightarrow> string list \<Rightarrow> panic + ErrorX" where
  "parseError env to None = Inr to"
| "parseError env to (Some (XErr a v)) =
     (if depthReached env to then Inr to
      else Inr (ErrorX (CombineErrKinds env (kind to) (kind v))
                  (attrs (ErrorX_append env to (errs v)))
                  (errs (ErrorX_append env to (errs v)))
                  (uniqErrs (ErrorX_append env to (errs v)))))"
| "parseError env to (Some (Joined msg children)) =
     (if depthReached env to then Inr to
      else if children = [] then parseError env to (Some (Plain msg))
      else appendEach env to children)"
| "parseError env to (Some (Wrapped msg child)) =
     (if depthReached env to then Inr to
      else case child of
             Some inner \<Rightarrow> parseError env to (Some inner)
           | None \<Rightarrow> parseError env to (Some (Plain msg)))"
| "parseError env to (Some (Caused msg cause)) =
     (if depthReached env to then Inr to
      else case cause of
             None \<Rightarrow> Inl NilDereference
           | Some c \<Rightarrow>
               parseError env (ErrorX_append env to [c])
                 (Some (Plain (ReplaceAll_empty msg (Error env c)))))"
| "parseError env to (Some (Plain errString)) =
     (if depthReached env to then Inr to
      else if Contains errString DelimArrow
        then parseParts env to (map TrimSpace (rev (Split errString DelimArrow)))
      else if Contains errString DelimArrowSerialized
        then parseParts env to (map TrimSpace (rev (Split errString DelimArrowSerialized)))
      else if Contains errString DelimSemiColon
        then parseParts env to (map TrimSpace (Split errString DelimSemiColon))
      else if Contains errString MultiLineErrPrefix
        then parseParts env to
               (map TrimSpace (Split (ReplaceAll_empty errString MultiLineErrPrefix) DelimMultiLine))
      else Inr (ErrorX_append env to [Plain errString]))"
| "parseParts env to [] = Inr to"
| "parseParts env to (part # rest) =
     (case parseError env to (Some (Plain part)) of
        Inl p \<Rightarrow> Inl p
      | Inr to' \<Rightarrow> parseParts env to' rest)"
  by pat_completeness auto
termination
proof (relation "measure (\<lambda>x. case x of
          Inl (env, to, err) \<Rightarrow> (case err of None \<Rightarrow> 0 | Some e \<Rightarrow> errWeight e)
        | Inr (env, to, parts) \<Rightarrow> partsWeight parts)", goal_cases)
  case 1
  show ?case by simp
next
  case 2
  then show ?case by simp
next
  case 3
  then show ?case by simp
next
  case 4
  then show ?case by simp
next
  case (5 env to msg cause c)
  with ReplaceAll_empty_length [of msg "Error env c"] show ?case by simp
next
  case (6 env to errString)
  with weight_arrow_parts [of errString] show ?case by simp
next
  case (7 env to errString)
  with weight_serialized_parts [of errString] show ?case by simp
next
  case (8 env to errString)
  with weight_semicolon_parts [of errString] show ?case by simp
next
  case (9 env to errString)
  with weight_multiline_parts [of errString] show ?case by simp
next
  case 10
  show ?case by simp
next
  case 11
  show ?case by simp
qed

text \<open>\<^verbatim>\<open>FromError\<close>: nil for nil, and otherwise a fresh container that is parsed into.\<close>

definition FromError :: "env \<Rightarrow> error option \<Rightarrow> panic + ErrorX option" where
  "FromError env err =
     (case err of
        None \<Rightarrow> Inr None
      | Some e \<Rightarrow>
          (case parseError env emptyErrorX (Some e) of
             Inl p \<Rightarrow> Inl p
           | Inr nucleiErr \<Rightarrow> Inr (Some nucleiErr)))"


section \<open>Definitions for the statements\<close>

text \<open>
  A configuration to evaluate in: the defaults, a \<^verbatim>\<open>CombineErrKinds\<close> that keeps its
  first argument and an attribute rendering that is empty. No evaluation below depends on
  the two: their containers have no attributes, and no kinds are combined in them.
\<close>

definition exampleEnv :: env where
  "exampleEnv = defaultEnv (\<lambda>a b. a) (\<lambda>m. [])"


text \<open>
  How many leaves above \<^verbatim>\<open>MaxErrorDepth\<close> the classification of an error can leave:
  an \<^verbatim>\<open>*ErrorX\<close> and a joined error are merged by \<^verbatim>\<open>append\<close> for all
  their leaves or members, after a single look at the depth guard.
\<close>

fun overshoot :: "error \<Rightarrow> nat" where
  "overshoot (XErr a x) = length (errs x) - 1"
| "overshoot (Joined msg children) = length children - 1"
| "overshoot (Wrapped msg (Some inner)) = overshoot inner"
| "overshoot (Wrapped msg None) = 0"
| "overshoot (Caused msg cause) = 0"
| "overshoot (Plain msg) = 0"

text \<open>
  An error in which \<^verbatim>\<open>parseError\<close> meets no nil where it calls \<^verbatim>\<open>Error()\<close>: no
  member of a joined error is nil, and the cause of a cause error is not nil.
\<close>

fun nilFree :: "error \<Rightarrow> bool" where
  "nilFree (Plain msg) = True"
| "nilFree (Joined msg children) = (None \<notin> set children)"
| "nilFree (Wrapped msg None) = True"
| "nilFree (Wrapped msg (Some inner)) = nilFree inner"
| "nilFree (Caused msg cause) = (cause \<noteq> None)"
| "nilFree (XErr a x) = True"

text \<open>
  A linear chain of wrapped errors: \<open>wrapChain [m1, m2] inner\<close> is an error with message
  \<open>m1\<close> whose \<^verbatim>\<open>Unwrap()\<close> is an error with message \<open>m2\<close> whose
  \<^verbatim>\<open>Unwrap()\<close> is \<open>inner\<close>.
\<close>

definition wrapChain :: "string list \<Rightarrow> error \<Rightarrow> error" where
  "wrapChain msgs inner = foldr (\<lambda>msg e. Wrapped msg (Some e)) msgs inner"

text \<open>
  A message with none of the delimiter markers that \<^verbatim>\<open>parseError\<close> looks for, and
  one that \<^verbatim>\<open>strings.TrimSpace\<close> leaves as it is as well.
\<close>

definition noMarker :: "string \<Rightarrow> bool" where
  "noMarker s = (\<not> Contains s DelimArrow \<and> \<not> Contains s DelimSemiColon \<and> \<not> Contains s MultiLineErrPrefix)"

definition roundTripLeaf :: "string \<Rightarrow> bool" where
  "roundTripLeaf s = (noMarker s \<and> TrimSpace s = s)"

text \<open>
  \<^verbatim>\<open>strings.Join(elems, sep)\<close>, for the wording of the rendered string: the elements
  with the separator between them.
\<close>

fun Join :: "string list \<Rightarrow> string \<Rightarrow> string" where
  "Join [] sep = []"
| "Join [x] sep = x"
| "Join (x # y # ys) sep = x @ sep @ Join (y # ys) sep"

section \<open>Properties\<close>

subsection \<open>Leaves are deduplicated by their string\<close>

lemma ErrorX_append_kind_attrs [simp]:
  "kind (ErrorX_append env e es) = kind e" "attrs (ErrorX_append env e es) = attrs e"
  by (induction es arbitrary: e) auto












subsection \<open>The depth bound\<close>

lemma append_length: "length (errs (ErrorX_append env e es)) \<le> length (errs e) + length es"
proof (induction es arbitrary: e)
  case Nil
  show ?case by simp
next
  case (Cons a es)
  from Cons [of e] Cons [of "ErrorX (kind e) (attrs e) (errs e @ [a]) (insert (Error env a) (uniqErrs e))"]
  show ?case by (simp split: if_splits)
qed

lemma appendEach_length:
  "appendEach env to cs = Inr to' \<Longrightarrow> length (errs to') \<le> length (errs to) + length cs"
proof (induction env to cs rule: appendEach.induct)
  case (1 env to)
  then show ?case by simp
next
  case (2 env to rest)
  then show ?case by simp
next
  case (3 env to e rest)
  with append_length [of env to "[e]"] show ?case by fastforce
qed

lemma SetAttr_errs [simp]: "errs (SetAttr env e as) = errs e"
  by (induction as arbitrary: e) auto

lemma parseError_depthReached: "depthReached env to \<Longrightarrow> parseError env to err = Inr to"
proof (cases err)
  case None
  then show ?thesis by simp
next
  case (Some e)
  assume "depthReached env to"
  with Some show ?thesis by (cases e) simp_all
qed

lemma parse_bound:
  "parseError env to err = Inr to' \<Longrightarrow>
   int (length (errs to')) \<le> max (int (length (errs to)))
      (MaxErrorDepth env + int (case err of None \<Rightarrow> 0 | Some e \<Rightarrow> overshoot e))"
  "parseParts env to parts = Inr to' \<Longrightarrow>
   int (length (errs to')) \<le> max (int (length (errs to))) (MaxErrorDepth env)"
proof (induction env to err and env to parts arbitrary: to' and to' rule: parseError_parseParts.induct)
  case (1 env to)
  then show ?case by simp
next
  case (2 env to a v)
  show ?case
  proof (cases "depthReached env to")
    case True
    with 2 show ?thesis by simp
  next
    case False
    with 2 have "errs to' = errs (ErrorX_append env to (errs v))" by auto
    with append_length [of env to "errs v"] False show ?thesis
      by (auto simp: depthReached_def)
  qed
next
  case (3 env to msg children)
  show ?case
  proof (cases "depthReached env to")
    case True
    with 3(2) show ?thesis by simp
  next
    case False
    show ?thesis
    proof (cases "children = []")
      case True
      with False 3(1) [OF False True, of to'] 3(2) show ?thesis by simp
    next
      case ne: False
      with False 3(2) have "appendEach env to children = Inr to'" by simp
      from appendEach_length [OF this] False ne show ?thesis
        by (cases children) (auto simp: depthReached_def)
    qed
  qed
next
  case (4 env to msg child)
  show ?case
  proof (cases "depthReached env to")
    case True
    with 4(3) show ?thesis by simp
  next
    case False
    show ?thesis
    proof (cases child)
      case None
      with False 4(1) [OF False None, of to'] 4(3) show ?thesis by simp
    next
      case (Some inner)
      with False 4(2) [OF False Some, of to'] 4(3) show ?thesis by simp
    qed
  qed
next
  case (5 env to msg cause)
  show ?case
  proof (cases "depthReached env to")
    case True
    with 5(2) show ?thesis by simp
  next
    case False
    show ?thesis
    proof (cases cause)
      case None
      with False 5(2) show ?thesis by simp
    next
      case (Some c)
      with False 5(2) have "parseError env (ErrorX_append env to [c])
          (Some (Plain (ReplaceAll_empty msg (Error env c)))) = Inr to'" by simp
      from 5(1) [OF False Some this] append_length [of env to "[c]"] False
      show ?thesis by (auto simp: depthReached_def)
    qed
  qed
next
  case (6 env to errString)
  show ?case
  proof (cases "depthReached env to")
    case True
    with 6(5) show ?thesis by simp
  next
    case False
    note nr = this
    show ?thesis
    proof (cases "Contains errString DelimArrow")
      case True
      with nr 6(5) 6(1) [OF nr True, of to'] show ?thesis by simp
    next
      case a: False
      show ?thesis
      proof (cases "Contains errString DelimArrowSerialized")
        case True
        with nr a 6(5) 6(2) [OF nr a True, of to'] show ?thesis by simp
      next
        case b: False
        show ?thesis
        proof (cases "Contains errString DelimSemiColon")
          case True
          with nr a b 6(5) 6(3) [OF nr a b True, of to'] show ?thesis by simp
        next
          case c: False
          show ?thesis
          proof (cases "Contains errString MultiLineErrPrefix")
            case True
            with nr a b c 6(5) 6(4) [OF nr a b c True, of to'] show ?thesis by simp
          next
            case d: False
            with nr a b c 6(5) have "to' = ErrorX_append env to [Plain errString]" by simp
            with append_length [of env to "[Plain errString]"] nr show ?thesis
              by (auto simp: depthReached_def)
          qed
        qed
      qed
    qed
  qed
next
  case (7 env to)
  then show ?case by simp
next
  case (8 env to part rest)
  from 8(3) obtain mid where m: "parseError env to (Some (Plain part)) = Inr mid"
    and r: "parseParts env mid rest = Inr to'"
    by (auto split: sum.splits)
  from 8(1) [OF m] 8(2) [OF m r] show ?case by simp
qed

text \<open>
  Claim C1. The comment on \<^verbatim>\<open>MaxErrorDepth\<close> says that it is the maximum depth of
  errors "to be unwrapped or maintained" and that errors beyond it are ignored; the four
  pieces of a semicolon message give three leaves, and \<^verbatim>\<open>SetAttr\<close> tests the bound
  before it stores. The code breaks the bound where \<^verbatim>\<open>append\<close> is called without
  the test: with the bound at 3, a joined error with four members and an
  \<^verbatim>\<open>*ErrorX\<close> with four leaves are classified into four leaves, and \<^verbatim>\<open>Msgf\<close>
  adds a fourth leaf to a container with three.
\<close>

theorem MaxErrorDepth_exceeded:
  "MaxErrorDepth exampleEnv = 3 \<and>
   FromError exampleEnv
     (Some (Joined ''a b c d'' [Some (Plain ''a''), Some (Plain ''b''), Some (Plain ''c''), Some (Plain ''d'')]))
   = Inr (Some (ErrorX None fmempty [Plain ''a'', Plain ''b'', Plain ''c'', Plain ''d'']
                  {''a'', ''b'', ''c'', ''d''})) \<and>
   FromError exampleEnv
     (Some (XErr 0 (ErrorX None fmempty [Plain ''a'', Plain ''b'', Plain ''c'', Plain ''d'']
                      {''a'', ''b'', ''c'', ''d''})))
   = Inr (Some (ErrorX None fmempty [Plain ''a'', Plain ''b'', Plain ''c'', Plain ''d'']
                  {''a'', ''b'', ''c'', ''d''})) \<and>
   Msgf exampleEnv (Some 0) (Plain ''d'')
     (XErr 0 (ErrorX None fmempty [Plain ''a'', Plain ''b'', Plain ''c''] {''a'', ''b'', ''c''}))
   = XErr 0 (ErrorX None fmempty [Plain ''a'', Plain ''b'', Plain ''c'', Plain ''d'']
               {''a'', ''b'', ''c'', ''d''}) \<and>
   FromError exampleEnv (Some (Plain ''a; b; c; d''))
   = Inr (Some (ErrorX None fmempty [Plain ''a'', Plain ''b'', Plain ''c''] {''a'', ''b'', ''c''}))"
  by code_simp

subsection \<open>What FromError returns\<close>

text \<open>
  Claim C10. An \<^verbatim>\<open>*ErrorX\<close> without leaves is an error that is not nil;
  \<^verbatim>\<open>FromError\<close> returns a container for it that has no leaf either, and whose
  \<^verbatim>\<open>Cause()\<close> is nil.
\<close>

theorem FromError_of_leafless_ErrorX:
  "\<exists>c. FromError env (Some (XErr a (ErrorX k as [] u))) = Inr (Some c) \<and> errs c = [] \<and> Cause c = None"
  by (simp add: FromError_def emptyErrorX_def Cause_def)

lemma appendEach_returns: "None \<notin> set cs \<Longrightarrow> \<exists>to'. appendEach env to cs = Inr to'"
  by (induction env to cs rule: appendEach.induct) simp_all

lemma parse_returns:
  "(case err of None \<Rightarrow> True | Some e \<Rightarrow> nilFree e) \<Longrightarrow> \<exists>to'. parseError env to err = Inr to'"
  "\<exists>to'. parseParts env to parts = Inr to'"
proof (induction env to err and env to parts rule: parseError_parseParts.induct)
  case (1 env to)
  show ?case by simp
next
  case (2 env to a v)
  show ?case by simp
next
  case (3 env to msg children)
  then show ?case by (auto simp: appendEach_returns)
next
  case (4 env to msg child)
  then show ?case by (cases child) auto
next
  case (5 env to msg cause)
  then show ?case by (cases cause) auto
next
  case (6 env to errString)
  then show ?case by auto
next
  case (7 env to)
  show ?case by simp
next
  case (8 env to part rest)
  from 8(1) obtain mid where m: "parseError env to (Some (Plain part)) = Inr mid" by auto
  from 8(2) [OF m] m show ?case by simp
qed

text \<open>
  \<^verbatim>\<open>FromError\<close> returns a container for every error without such a nil: the recursion
  ends, and nothing else panics.
\<close>

lemma FromError_returns:
  "nilFree e \<Longrightarrow> \<exists>c. FromError env (Some e) = Inr (Some c)"
  using parse_returns(1) [of "Some e" env emptyErrorX] by (auto simp: FromError_def)

text \<open>
  Claim C6. With the default configuration, \<^verbatim>\<open>FromError\<close> of an error that is not
  nil and whose \<^verbatim>\<open>Cause()\<close> returns nil does not return a container: the
  \<^verbatim>\<open>CauseError\<close> case appends the cause without the nil check that the
  \<^verbatim>\<open>WrappedError\<close> case makes, and \<^verbatim>\<open>append\<close> dereferences it.
\<close>

theorem FromError_nil_cause_panics:
  "FromError (defaultEnv combine render) (Some (Caused msg None)) = Inl NilDereference"
  by (simp add: FromError_def defaultEnv_def emptyErrorX_def depthReached_def)

subsection \<open>The scenarios\<close>

text \<open>
  Claim C2, as stated, fails in its second half: \<^verbatim>\<open>Error()\<close> of the container does
  not give the arrow-joined message back.
\<close>

theorem arrow_scenario_counterexample:
  "FromError exampleEnv (Some (Plain ''disk full <- write failed <- save config''))
   = Inr (Some (ErrorX None fmempty [Plain ''save config'', Plain ''write failed'', Plain ''disk full'']
                  {''save config'', ''write failed'', ''disk full''})) \<and>
   ErrorX_Error exampleEnv
     (ErrorX None fmempty [Plain ''save config'', Plain ''write failed'', Plain ''disk full'']
        {''save config'', ''write failed'', ''disk full''})
   \<noteq> ''disk full <- write failed <- save config''"
  by code_simp

text \<open>
  Claim C2, amended. With the default configuration the arrow-joined message gives the
  three leaves in reverse order of the segments, and \<^verbatim>\<open>Error()\<close> of the container
  joins them with the separator: \<^verbatim>\<open>"save config; write failed; disk full"\<close>.
\<close>

theorem arrow_scenario:
  "FromError (defaultEnv combine render) (Some (Plain ''disk full <- write failed <- save config''))
   = Inr (Some (ErrorX None fmempty [Plain ''save config'', Plain ''write failed'', Plain ''disk full'']
                  {''save config'', ''write failed'', ''disk full''})) \<and>
   ErrorX_Error (defaultEnv combine render)
     (ErrorX None fmempty [Plain ''save config'', Plain ''write failed'', Plain ''disk full'']
        {''save config'', ''write failed'', ''disk full''})
   = ''save config; write failed; disk full''"
  by code_simp

text \<open>
  Claim C3. The cause-style error of the scenario gives two leaves, and the second one is
  the remainder as \<^verbatim>\<open>strings.Replace\<close> left it, with its leading blank: the
  \<^verbatim>\<open>CauseError\<close> case does not trim the remainder as the delimiter cases trim
  their pieces.
\<close>

theorem FromError_cause_remainder_untrimmed:
  "FromError (defaultEnv combine render)
     (Some (Caused ''timeout while connecting to host'' (Some (Plain ''timeout''))))
   = Inr (Some (ErrorX None fmempty [Plain ''timeout'', Plain '' while connecting to host'']
                  {''timeout'', '' while connecting to host''}))"
  by code_simp

subsection \<open>Chains of wrapped errors\<close>

lemma parseError_Wrapped_Some:
  "parseError env to (Some (Wrapped msg (Some inner))) = parseError env to (Some inner)"
  by (simp add: parseError_depthReached)

lemma parseError_wrapChain:
  "parseError env to (Some (wrapChain msgs inner)) = parseError env to (Some inner)"
  by (induction msgs) (simp_all add: wrapChain_def parseError_Wrapped_Some del: parseError.simps)

lemma parseError_noMarker:
  "noMarker s \<Longrightarrow> \<not> depthReached env to \<Longrightarrow>
   parseError env to (Some (Plain s)) = Inr (ErrorX_append env to [Plain s])"
  by (simp add: noMarker_def DelimArrowSerialized_def DelimArrow_def)

text \<open>
  Claim C4, as stated, fails: with the default bound of 3, a chain of four wrapped errors
  around a plain error, all messages different, is classified into one leaf, the
  innermost error, and not into three.
\<close>

theorem wrapped_chain_counterexample:
  "FromError exampleEnv
     (Some (Wrapped ''load: parse: read: open: no such file''
       (Some (Wrapped ''parse: read: open: no such file''
         (Some (Wrapped ''read: open: no such file''
           (Some (Wrapped ''open: no such file''
             (Some (Plain ''no such file''))))))))))
   = Inr (Some (ErrorX None fmempty [Plain ''no such file''] {''no such file''})) \<and>
   int (length (errs (ErrorX None fmempty [Plain ''no such file''] {''no such file''})))
     \<noteq> MaxErrorDepth exampleEnv"
  by code_simp

text \<open>
  Claim C4, amended. The \<^verbatim>\<open>WrappedError\<close> case recurses into the child and drops the
  wrapper's own message: a chain of wrapped errors of any length is classified as its
  innermost error is, into exactly one leaf when that is a plain error whose message has
  no delimiter marker and \<^verbatim>\<open>MaxErrorDepth\<close> is positive. The recursion stops when
  the container has reached the bound on entry.
\<close>

theorem wrapped_chain_gives_innermost:
  "FromError env (Some (wrapChain msgs inner)) = FromError env (Some inner) \<and>
   (noMarker s \<and> 0 < MaxErrorDepth env \<longrightarrow>
      FromError env (Some (wrapChain msgs (Plain s)))
        = Inr (Some (ErrorX None fmempty [Plain s] {s}))) \<and>
   (depthReached env to \<longrightarrow> parseError env to (Some (wrapChain msgs inner)) = Inr to)"
proof (intro conjI impI)
  show "FromError env (Some (wrapChain msgs inner)) = FromError env (Some inner)"
    by (simp add: FromError_def parseError_wrapChain)
  show "FromError env (Some (wrapChain msgs (Plain s)))
        = Inr (Some (ErrorX None fmempty [Plain s] {s}))"
    if "noMarker s \<and> 0 < MaxErrorDepth env"
    using that parseError_noMarker [of s env emptyErrorX]
    by (simp add: FromError_def parseError_wrapChain depthReached_def emptyErrorX_def)
  show "parseError env to (Some (wrapChain msgs inner)) = Inr to" if "depthReached env to"
    using that by (rule parseError_depthReached)
qed

text \<open>
  The chain of four wrapped errors again: one leaf.
\<close>

theorem wrapped_chain_gives_innermost_witness:
  "noMarker ''no such file'' \<and> 0 < MaxErrorDepth exampleEnv \<and>
   FromError exampleEnv
     (Some (wrapChain [''load: parse: read: open: no such file'', ''parse: read: open: no such file'',
                       ''read: open: no such file'', ''open: no such file'']
              (Plain ''no such file'')))
   = Inr (Some (ErrorX None fmempty [Plain ''no such file''] {''no such file''}))"
proof -
  have h: "noMarker ''no such file'' \<and> 0 < MaxErrorDepth exampleEnv"
    by code_simp
  with wrapped_chain_gives_innermost [of exampleEnv _ "Plain ''no such file''" "''no such file''"]
  show ?thesis by blast
qed

subsection \<open>The rendered string\<close>

lemma concat_sep_Join:
  "xs \<noteq> [] \<Longrightarrow> concat (map (\<lambda>x. x @ sep) xs) = Join xs sep @ sep"
  by (induction xs sep rule: Join.induct) simp_all

lemma TrimSuffix_append [simp]: "TrimSuffix (s @ suf) suf = s"
  by (simp add: TrimSuffix_def suffix_def)

lemma fcard_fmdom_pos: "0 < fcard (fmdom m) \<longleftrightarrow> m \<noteq> fmempty"
proof
  assume "0 < fcard (fmdom m)"
  then show "m \<noteq> fmempty" by (auto simp: fcard_fempty)
next
  assume ne: "m \<noteq> fmempty"
  have "fmdom m \<noteq> {||}"
  proof
    assume "fmdom m = {||}"
    then have "fmlookup m k = None" for k
      using fmdom_notD [of k m] by simp
    then have "m = fmempty" by (intro fmap_ext) simp
    with ne show False by simp
  qed
  then show "0 < fcard (fmdom m)" by (simp add: neq0_conv [symmetric])
qed

text \<open>
  The layout of the rendered string: with a leaf, the kind prefix, the attributes and the
  leaves joined by the separator; without one, what \<^verbatim>\<open>strings.TrimSuffix\<close> leaves
  of the kind prefix and the attributes.
\<close>

lemma Error_layout:
  "ErrorX_Error env x =
     (if errs x = []
      then TrimSuffix
             ((case kind x of None \<Rightarrow> [] | Some name \<Rightarrow> if name = [] then [] else ''errKind='' @ name @ '' '')
              @ (if attrs x = fmempty then [] else GroupString env (attrs x) @ '' ''))
             (ErrorSeperator env)
      else (case kind x of None \<Rightarrow> [] | Some name \<Rightarrow> if name = [] then [] else ''errKind='' @ name @ '' '')
           @ (if attrs x = fmempty then [] else GroupString env (attrs x) @ '' '')
           @ Join (map (Error env) (errs x)) (ErrorSeperator env))"
proof (cases x)
  case (ErrorX k as es u)
  show ?thesis
  proof (cases "es = []")
    case True
    with ErrorX show ?thesis by (simp add: fcard_fmdom_pos split: option.splits)
  next
    case False
    then have "concat (map (\<lambda>e. Error env e @ ErrorSeperator env) es)
        = Join (map (Error env) es) (ErrorSeperator env) @ ErrorSeperator env"
      using concat_sep_Join [of "map (Error env) es" "ErrorSeperator env"]
      by (simp add: comp_def)
    with False ErrorX show ?thesis
      by (simp add: fcard_fmdom_pos split: option.splits flip: append_assoc)
  qed
qed

text \<open>
  Claim C8. The layout holds for a container with a leaf. Without a leaf the code breaks
  it: \<^verbatim>\<open>strings.TrimSuffix\<close>, which is there for the separator after the last leaf,
  cuts into the prefix when the prefix ends with the separator. With the default
  separator a kind named \<^verbatim>\<open>weird;\<close> is rendered as \<^verbatim>\<open>errKind=weird\<close> on a
  container without leaves, and in full on one with a leaf.
\<close>

theorem Error_trims_the_prefix:
  "ErrorX_Error (defaultEnv combine render) (ErrorX (Some ''weird;'') fmempty [] {})
   = ''errKind=weird'' \<and>
   ErrorX_Error (defaultEnv combine render) (ErrorX (Some ''weird;'') fmempty [Plain ''a''] {''a''})
   = ''errKind=weird; a''"
  by code_simp

subsection \<open>Attributes\<close>

lemma SetAttr_keeps_key:
  "fmlookup (attrs e) k = Some a \<Longrightarrow> fmlookup (attrs (SetAttr env e as)) k = Some a"
proof (induction as arbitrary: e)
  case Nil
  then show ?case by simp
next
  case (Cons b as)
  show ?case
  proof (cases "Key b |\<notin>| fmdom (attrs e) \<and> int (fcard (fmdom (attrs e))) < MaxErrorDepth env")
    case True
    with Cons.prems have "Key b \<noteq> k" by (auto simp: fmlookup_dom_iff)
    with Cons.prems have "fmlookup (attrs (ErrorX (kind e) (fmupd (Key b) b (attrs e)) (errs e) (uniqErrs e))) k = Some a"
      by simp
    from Cons.IH [OF this] True show ?thesis by simp
  next
    case False
    with Cons.IH [OF Cons.prems] show ?thesis by auto
  qed
qed

lemma SetAttr_count:
  "int (fcard (fmdom (attrs (SetAttr env e as)))) \<le> max (int (fcard (fmdom (attrs e)))) (MaxErrorDepth env)"
proof (induction as arbitrary: e)
  case Nil
  show ?case by simp
next
  case (Cons b as)
  show ?case
  proof (cases "Key b |\<notin>| fmdom (attrs e) \<and> int (fcard (fmdom (attrs e))) < MaxErrorDepth env")
    case True
    then have "int (fcard (fmdom (fmupd (Key b) b (attrs e)))) \<le> MaxErrorDepth env"
      by (simp add: fcard_finsert_disjoint)
    with Cons.IH [of "ErrorX (kind e) (fmupd (Key b) b (attrs e)) (errs e) (uniqErrs e)"] True
    show ?thesis by simp
  next
    case False
    with Cons.IH [of e] show ?thesis by auto
  qed
qed

lemma SetAttr_two_keys:
  "Key a \<noteq> Key b \<Longrightarrow> 2 \<le> MaxErrorDepth env \<Longrightarrow>
   SetAttr env emptyErrorX [a, b] = ErrorX None (fmupd (Key b) b (fmupd (Key a) a fmempty)) [] {}"
  by (simp add: emptyErrorX_def fcard_fempty fcard_finsert_disjoint)

lemma Attrs_two_keys:
  assumes "Key a \<noteq> Key b"
  shows "Attrs (ErrorX k (fmupd (Key b) b (fmupd (Key a) a fmempty)) es u) [a, b]"
    and "Attrs (ErrorX k (fmupd (Key b) b (fmupd (Key a) a fmempty)) es u) [b, a]"
  using assms by (auto simp: Attrs_def fcard_fempty fcard_finsert_disjoint)

text \<open>
  Claim C9, as stated, fails in its second half: after \<^verbatim>\<open>host\<close> and then
  \<^verbatim>\<open>port\<close> were set, \<^verbatim>\<open>Attrs()\<close> can return \<^verbatim>\<open>port\<close> first, and it
  can return \<^verbatim>\<open>host\<close> first: the order is not the order of insertion, and not one
  order.
\<close>

theorem attrs_order_counterexample:
  "SetAttr exampleEnv emptyErrorX
     [\<lparr>Key = ''host'', Val = StringValue ''example.org''\<rparr>, \<lparr>Key = ''port'', Val = Int64Value 443\<rparr>]
   = ErrorX None
       (fmupd ''port'' \<lparr>Key = ''port'', Val = Int64Value 443\<rparr>
          (fmupd ''host'' \<lparr>Key = ''host'', Val = StringValue ''example.org''\<rparr> fmempty)) [] {} \<and>
   Attrs (ErrorX None
       (fmupd ''port'' \<lparr>Key = ''port'', Val = Int64Value 443\<rparr>
          (fmupd ''host'' \<lparr>Key = ''host'', Val = StringValue ''example.org''\<rparr> fmempty)) [] {})
     [\<lparr>Key = ''port'', Val = Int64Value 443\<rparr>, \<lparr>Key = ''host'', Val = StringValue ''example.org''\<rparr>] \<and>
   Attrs (ErrorX None
       (fmupd ''port'' \<lparr>Key = ''port'', Val = Int64Value 443\<rparr>
          (fmupd ''host'' \<lparr>Key = ''host'', Val = StringValue ''example.org''\<rparr> fmempty)) [] {})
     [\<lparr>Key = ''host'', Val = StringValue ''example.org''\<rparr>, \<lparr>Key = ''port'', Val = Int64Value 443\<rparr>]"
proof -
  have k: "Key \<lparr>Key = ''host'', Val = StringValue ''example.org''\<rparr>
      \<noteq> Key \<lparr>Key = ''port'', Val = Int64Value 443\<rparr>"
    by simp
  have m: "2 \<le> MaxErrorDepth exampleEnv"
    by (simp add: exampleEnv_def defaultEnv_def)
  from SetAttr_two_keys [OF k m] Attrs_two_keys [OF k, of None "[]" "{}"]
  show ?thesis by simp
qed

text \<open>
  Claim C9, amended. \<^verbatim>\<open>SetAttr\<close> stores an attribute only if its key is new and
  fewer than \<^verbatim>\<open>MaxErrorDepth\<close> attributes are stored: an attribute that is stored
  stays as it is, the first of two attributes with the same key is the one kept, and the
  number of attributes does not grow beyond the bound. The attributes are kept in a map
  by key, which holds no order of insertion: with room for both, two attributes with
  different keys give the same container in either order, and \<^verbatim>\<open>Attrs()\<close> can
  return them in either order.
\<close>

theorem SetAttr_first_value_wins:
  "attrs (SetAttr env e [a])
     = (if Key a |\<notin>| fmdom (attrs e) \<and> int (fcard (fmdom (attrs e))) < MaxErrorDepth env
        then fmupd (Key a) a (attrs e) else attrs e) \<and>
   (fmlookup (attrs e) k = Some a \<longrightarrow> fmlookup (attrs (SetAttr env e as)) k = Some a) \<and>
   (0 < MaxErrorDepth env \<longrightarrow>
      fmlookup (attrs (SetAttr env emptyErrorX (\<lparr>Key = k, Val = v1\<rparr> # \<lparr>Key = k, Val = v2\<rparr> # as))) k
        = Some \<lparr>Key = k, Val = v1\<rparr>) \<and>
   int (fcard (fmdom (attrs (SetAttr env e as)))) \<le> max (int (fcard (fmdom (attrs e)))) (MaxErrorDepth env) \<and>
   (Key a \<noteq> Key b \<and> 2 \<le> MaxErrorDepth env \<longrightarrow>
      SetAttr env emptyErrorX [a, b] = SetAttr env emptyErrorX [b, a] \<and>
      Attrs (SetAttr env emptyErrorX [a, b]) [a, b] \<and>
      Attrs (SetAttr env emptyErrorX [a, b]) [b, a])"
proof (intro conjI impI)
  show "attrs (SetAttr env e [a])
     = (if Key a |\<notin>| fmdom (attrs e) \<and> int (fcard (fmdom (attrs e))) < MaxErrorDepth env
        then fmupd (Key a) a (attrs e) else attrs e)"
    by simp
  show "fmlookup (attrs (SetAttr env e as)) k = Some a" if "fmlookup (attrs e) k = Some a"
    using that by (rule SetAttr_keeps_key)
  show "fmlookup (attrs (SetAttr env emptyErrorX (\<lparr>Key = k, Val = v1\<rparr> # \<lparr>Key = k, Val = v2\<rparr> # as))) k
        = Some \<lparr>Key = k, Val = v1\<rparr>" if "0 < MaxErrorDepth env"
  proof -
    have "SetAttr env emptyErrorX (\<lparr>Key = k, Val = v1\<rparr> # \<lparr>Key = k, Val = v2\<rparr> # as)
        = SetAttr env (ErrorX None (fmupd k \<lparr>Key = k, Val = v1\<rparr> fmempty) [] {}) as"
      using that by (simp add: emptyErrorX_def fcard_fempty)
    then show ?thesis by (simp add: SetAttr_keeps_key)
  qed
  show "int (fcard (fmdom (attrs (SetAttr env e as)))) \<le> max (int (fcard (fmdom (attrs e)))) (MaxErrorDepth env)"
    by (rule SetAttr_count)
  assume h: "Key a \<noteq> Key b \<and> 2 \<le> MaxErrorDepth env"
  then have ab: "SetAttr env emptyErrorX [a, b]
      = ErrorX None (fmupd (Key b) b (fmupd (Key a) a fmempty)) [] {}"
    by (intro SetAttr_two_keys) simp_all
  from h have ba: "SetAttr env emptyErrorX [b, a]
      = ErrorX None (fmupd (Key a) a (fmupd (Key b) b fmempty)) [] {}"
    by (intro SetAttr_two_keys) auto
  from h show "SetAttr env emptyErrorX [a, b] = SetAttr env emptyErrorX [b, a]"
    unfolding ab ba using fmupd_reorder_neq [of "Key a" "Key b" a b fmempty] by simp
  from h show "Attrs (SetAttr env emptyErrorX [a, b]) [a, b]"
    unfolding ab by (intro Attrs_two_keys(1)) simp
  from h show "Attrs (SetAttr env emptyErrorX [a, b]) [b, a]"
    unfolding ab by (intro Attrs_two_keys(2)) simp
qed

text \<open>
  The two attributes of the scenario, both with key \<^verbatim>\<open>k\<close>: the value 1 is kept,
  and one attribute is stored. Two attributes with different keys, listed in the reverse
  order.
\<close>

theorem SetAttr_first_value_wins_witness:
  "0 < MaxErrorDepth exampleEnv \<and>
   fmlookup (attrs (SetAttr exampleEnv emptyErrorX
      [\<lparr>Key = ''k'', Val = Int64Value 1\<rparr>, \<lparr>Key = ''k'', Val = Int64Value 2\<rparr>])) ''k''
     = Some \<lparr>Key = ''k'', Val = Int64Value 1\<rparr> \<and>
   fcard (fmdom (attrs (SetAttr exampleEnv emptyErrorX
      [\<lparr>Key = ''k'', Val = Int64Value 1\<rparr>, \<lparr>Key = ''k'', Val = Int64Value 2\<rparr>]))) = 1 \<and>
   Key \<lparr>Key = ''k'', Val = Int64Value 1\<rparr> \<noteq> Key \<lparr>Key = ''j'', Val = Int64Value 2\<rparr> \<and>
   2 \<le> MaxErrorDepth exampleEnv \<and>
   Attrs (SetAttr exampleEnv emptyErrorX [\<lparr>Key = ''k'', Val = Int64Value 1\<rparr>, \<lparr>Key = ''j'', Val = Int64Value 2\<rparr>])
     [\<lparr>Key = ''j'', Val = Int64Value 2\<rparr>, \<lparr>Key = ''k'', Val = Int64Value 1\<rparr>]"
proof -
  have h: "0 < MaxErrorDepth exampleEnv" "2 \<le> MaxErrorDepth exampleEnv"
    by (simp_all add: exampleEnv_def defaultEnv_def)
  have c: "fcard (fmdom (attrs (SetAttr exampleEnv emptyErrorX
      [\<lparr>Key = ''k'', Val = Int64Value 1\<rparr>, \<lparr>Key = ''k'', Val = Int64Value 2\<rparr>]))) = 1"
    by (simp add: exampleEnv_def defaultEnv_def emptyErrorX_def fcard_fempty fcard_finsert_disjoint)
  have k: "Key \<lparr>Key = ''k'', Val = Int64Value 1\<rparr> \<noteq> Key \<lparr>Key = ''j'', Val = Int64Value 2\<rparr>"
    by simp
  from h c k
    SetAttr_first_value_wins [of exampleEnv emptyErrorX "\<lparr>Key = ''k'', Val = Int64Value 1\<rparr>" "''k''" "[]"
      "Int64Value 1" "Int64Value 2" "\<lparr>Key = ''j'', Val = Int64Value 2\<rparr>"]
  show ?thesis by blast
qed

subsection \<open>The round trip through the separator\<close>

lemma Contains_prefix: "prefix sub s \<Longrightarrow> Contains s sub"
  by (cases s) auto

lemma Contains_middle: "Contains (x @ sub @ y) sub"
  by (induction x) (auto simp: Contains_prefix)

lemma prefix_across_char:
  "c \<notin> set sub \<Longrightarrow> prefix sub (x @ c # y) \<longleftrightarrow> prefix sub x"
  by (auto simp: prefix_append prefix_Cons)

lemma Contains_across_char:
  "c \<notin> set sub \<Longrightarrow> sub \<noteq> [] \<Longrightarrow> Contains (x @ c # y) sub \<longleftrightarrow> Contains x sub \<or> Contains y sub"
proof (induction x)
  case Nil
  then show ?case by (auto simp: prefix_Cons)
next
  case (Cons h x)
  from Cons.prems(1) have "prefix sub ((h # x) @ c # y) \<longleftrightarrow> prefix sub (h # x)"
    by (rule prefix_across_char)
  with Cons show ?case by auto
qed

lemma Contains_after_blank:
  "sub \<noteq> [] \<Longrightarrow> hd sub \<noteq> CHR '' '' \<Longrightarrow> Contains (CHR '' '' # y) sub \<longleftrightarrow> Contains y sub"
  by (cases sub) (auto simp: prefix_Cons)

lemma Contains_joined:
  assumes "CHR '';'' \<notin> set sub" "sub \<noteq> []" "hd sub \<noteq> CHR '' ''"
  shows "Contains (a @ ''; '' @ r) sub \<longleftrightarrow> Contains a sub \<or> Contains r sub"
  using Contains_across_char [OF assms(1,2), of a "CHR '' '' # r"]
    Contains_after_blank [OF assms(2,3), of r]
  by simp

lemma splitFrom_no_sep:
  "\<not> Contains s sep \<Longrightarrow> splitFrom sep acc s = [rev acc @ s]"
  by (induction s arbitrary: acc) auto

lemma splitFrom_semicolon:
  "\<not> Contains a ''; '' \<Longrightarrow>
   splitFrom ''; '' acc (a @ ''; '' @ r) = (rev acc @ a) # splitFrom ''; '' [] r"
proof (induction a arbitrary: acc)
  case Nil
  show ?case by simp
next
  case (Cons h t)
  from Cons.prems have t: "\<not> Contains t ''; ''" and p: "\<not> prefix ''; '' (h # t)"
    by auto
  from p have "\<not> prefix ''; '' (h # t @ ''; '' @ r)"
    by (cases t) auto
  with Cons.IH [OF t, of "h # acc"] show ?case by simp
qed

lemma Split_joined3:
  assumes "\<not> Contains a DelimSemiColon" "\<not> Contains b DelimSemiColon" "\<not> Contains c DelimSemiColon"
  shows "Split (a @ ''; '' @ b @ ''; '' @ c) DelimSemiColon = [a, b, c]"
  using assms splitFrom_semicolon [of a "[]" "b @ ''; '' @ c"] splitFrom_semicolon [of b "[]" c]
    splitFrom_no_sep [of c "''; ''" "[]"]
  by (simp add: Split_def DelimSemiColon_def)

lemma no_arrow_joined3:
  assumes "\<not> Contains a DelimArrow" "\<not> Contains b DelimArrow" "\<not> Contains c DelimArrow"
  shows "\<not> Contains (a @ ''; '' @ b @ ''; '' @ c) DelimArrow"
proof -
  have s: "CHR '';'' \<notin> set DelimArrow" "DelimArrow \<noteq> []" "hd DelimArrow \<noteq> CHR '' ''"
    by (simp_all add: DelimArrow_def)
  show ?thesis
    using assms Contains_joined [OF s, of a "b @ ''; '' @ c"] Contains_joined [OF s, of b c]
    by simp
qed

lemma Error_three_leaves:
  "ErrorX_Error env (ErrorX None fmempty [ea, eb, ec] u)
   = Error env ea @ ErrorSeperator env @ Error env eb @ ErrorSeperator env @ Error env ec"
proof -
  have "ErrorX_Error env (ErrorX None fmempty [ea, eb, ec] u)
      = TrimSuffix
          ((Error env ea @ ErrorSeperator env @ Error env eb @ ErrorSeperator env @ Error env ec)
           @ ErrorSeperator env)
          (ErrorSeperator env)"
    by (simp add: fcard_fempty)
  then show ?thesis by (simp only: TrimSuffix_append)
qed

lemma parseParts_three:
  assumes "noMarker a" "noMarker b" "noMarker c" "distinct [a, b, c]"
  shows "parseParts (defaultEnv combine render) emptyErrorX [a, b, c]
         = Inr (ErrorX None fmempty [Plain a, Plain b, Plain c] {a, b, c})"
proof -
  let ?env = "defaultEnv combine render"
  have 1: "parseError ?env emptyErrorX (Some (Plain a)) = Inr (ErrorX None fmempty [Plain a] {a})"
    using parseError_noMarker [OF assms(1), of ?env emptyErrorX]
    by (simp add: depthReached_def defaultEnv_def emptyErrorX_def)
  have 2: "parseError ?env (ErrorX None fmempty [Plain a] {a}) (Some (Plain b))
      = Inr (ErrorX None fmempty [Plain a, Plain b] {a, b})"
    using parseError_noMarker [OF assms(2), of ?env "ErrorX None fmempty [Plain a] {a}"] assms(4)
    by (auto simp: depthReached_def defaultEnv_def)
  have 3: "parseError ?env (ErrorX None fmempty [Plain a, Plain b] {a, b}) (Some (Plain c))
      = Inr (ErrorX None fmempty [Plain a, Plain b, Plain c] {a, b, c})"
    using parseError_noMarker [OF assms(3), of ?env "ErrorX None fmempty [Plain a, Plain b] {a, b}"] assms(4)
    by (auto simp: depthReached_def defaultEnv_def)
  show ?thesis
    by (simp only: parseParts.simps 1 2 3 sum.case)
qed

text \<open>
  Claim C5, as stated, fails: a leaf that ends with a blank has no delimiter marker, and
  the container renders as the claim says, but classifying the rendered string trims the
  piece, so that the first leaf comes back without its blank.
\<close>

theorem semicolon_round_trip_counterexample:
  "noMarker ''cannot open '' \<and> noMarker ''retry'' \<and> noMarker ''give up'' \<and>
   ErrorX_Error exampleEnv
     (ErrorX None fmempty [Plain ''cannot open '', Plain ''retry'', Plain ''give up'']
        {''cannot open '', ''retry'', ''give up''})
   = ''cannot open ; retry; give up'' \<and>
   FromError exampleEnv (Some (Plain ''cannot open ; retry; give up''))
   = Inr (Some (ErrorX None fmempty [Plain ''cannot open'', Plain ''retry'', Plain ''give up'']
                  {''cannot open'', ''retry'', ''give up''})) \<and>
   map (Error exampleEnv) [Plain ''cannot open'', Plain ''retry'', Plain ''give up'']
   \<noteq> [''cannot open '', ''retry'', ''give up'']"
  by code_simp

text \<open>
  Claim C5, amended. With the default configuration, for a container without kind and
  attributes whose three leaves have the strings \<open>a\<close>, \<open>b\<close>, \<open>c\<close>, pairwise
  different, each without a delimiter marker and without white space at its ends:
  \<^verbatim>\<open>Error()\<close> is \<open>a; b; c\<close>, and classifying a plain error with that message
  gives the leaves \<open>a\<close>, \<open>b\<close>, \<open>c\<close> in this order.
\<close>

theorem semicolon_round_trip:
  "roundTripLeaf a \<and> roundTripLeaf b \<and> roundTripLeaf c \<and> distinct [a, b, c] \<and>
   Error (defaultEnv combine render) ea = a \<and>
   Error (defaultEnv combine render) eb = b \<and>
   Error (defaultEnv combine render) ec = c \<longrightarrow>
   ErrorX_Error (defaultEnv combine render) (ErrorX None fmempty [ea, eb, ec] u)
     = a @ ''; '' @ b @ ''; '' @ c \<and>
   FromError (defaultEnv combine render) (Some (Plain (a @ ''; '' @ b @ ''; '' @ c)))
     = Inr (Some (ErrorX None fmempty [Plain a, Plain b, Plain c] {a, b, c}))"
proof (intro impI conjI)
  let ?env = "defaultEnv combine render"
  let ?s = "a @ ''; '' @ b @ ''; '' @ c"
  assume h: "roundTripLeaf a \<and> roundTripLeaf b \<and> roundTripLeaf c \<and> distinct [a, b, c] \<and>
     Error ?env ea = a \<and> Error ?env eb = b \<and> Error ?env ec = c"
  then have nm: "noMarker a" "noMarker b" "noMarker c"
    and tr: "TrimSpace a = a" "TrimSpace b = b" "TrimSpace c = c"
    and di: "distinct [a, b, c]"
    by (simp_all add: roundTripLeaf_def)
  show "ErrorX_Error ?env (ErrorX None fmempty [ea, eb, ec] u) = ?s"
    using h Error_three_leaves [of ?env ea eb ec u] by (simp add: defaultEnv_def)
  have arrow: "\<not> Contains ?s DelimArrow"
    using nm by (intro no_arrow_joined3) (simp_all add: noMarker_def)
  have semi: "Contains ?s DelimSemiColon"
    using Contains_middle [of a "''; ''" "b @ ''; '' @ c"] by (simp add: DelimSemiColon_def)
  have split: "map TrimSpace (Split ?s DelimSemiColon) = [a, b, c]"
    using nm tr Split_joined3 [of a b c] by (simp add: noMarker_def)
  have "parseError ?env emptyErrorX (Some (Plain ?s)) = parseParts ?env emptyErrorX [a, b, c]"
    using arrow semi split
    by (simp add: depthReached_def defaultEnv_def emptyErrorX_def DelimArrowSerialized_def DelimArrow_def)
  with parseParts_three [OF nm di, of combine render]
  show "FromError ?env (Some (Plain ?s))
     = Inr (Some (ErrorX None fmempty [Plain a, Plain b, Plain c] {a, b, c}))"
    by (simp add: FromError_def)
qed

text \<open>
  Three leaves that meet the conditions.
\<close>

theorem semicolon_round_trip_witness:
  "roundTripLeaf ''disk full'' \<and> roundTripLeaf ''write failed'' \<and> roundTripLeaf ''save config'' \<and>
   ErrorX_Error exampleEnv
     (ErrorX None fmempty [Plain ''disk full'', Plain ''write failed'', Plain ''save config'']
        {''disk full'', ''write failed'', ''save config''})
   = ''disk full; write failed; save config'' \<and>
   FromError exampleEnv (Some (Plain ''disk full; write failed; save config''))
   = Inr (Some (ErrorX None fmempty [Plain ''disk full'', Plain ''write failed'', Plain ''save config'']
                  {''disk full'', ''write failed'', ''save config''}))"
proof -
  have h: "roundTripLeaf ''disk full'' \<and> roundTripLeaf ''write failed'' \<and> roundTripLeaf ''save config''"
    by code_simp
  from h semicolon_round_trip
    [of "''disk full''" "''write failed''" "''save config''" "\<lambda>a b. a" "\<lambda>m. []"
      "Plain ''disk full''" "Plain ''write failed''" "Plain ''save config''"
      "{''disk full'', ''write failed'', ''save config''}"]
  show ?thesis by (simp add: exampleEnv_def)
qed

end
